theory Spec2Isabelle
  imports Main "HOL-Library.Word"
begin

unbundle bit_operations_syntax

section \<open>billy: the shelf router of db.go\<close>

text \<open>
  The development follows \<^verbatim>\<open>src/db.go\<close>: the two slot-size generators, \<^verbatim>\<open>Open\<close>, and the
  methods \<^verbatim>\<open>Put\<close>, \<^verbatim>\<open>Get\<close>, \<^verbatim>\<open>Delete\<close> and \<^verbatim>\<open>Close\<close> of \<^verbatim>\<open>database\<close>.

  Go's \<^verbatim>\<open>uint32\<close> and \<^verbatim>\<open>uint64\<close> are \<open>32 word\<close> and \<open>64 word\<close>. Go's \<^verbatim>\<open>int\<close> is the 64-bit
  signed integer: a \<^verbatim>\<open>uint64\<close> converted to \<^verbatim>\<open>int\<close> is read with \<open>sint\<close>, and lengths of
  slices are non-negative values far below \<open>2 ^ 63\<close>, written as \<open>nat\<close> or \<open>int\<close>.

  \<^verbatim>\<open>db.shelves\<close> is a slice of pointers to shelves. The shelf itself (shelf.go) is not part
  of db.go: a shelf is a handle carrying the immutable \<^verbatim>\<open>slotSize\<close> that db.go reads, and
  the methods of a shelf act on an explicit world \<open>'w\<close> (files, gap lists) and are
  parameters of the router's operations.
\<close>

subsection \<open>Data\<close>

type_synonym bytes = "8 word list"

datatype error =
    ErrSlotOrder              \<comment> \<open>"slot sizes must be in increasing order"\<close>
  | ErrTooManyShelves nat     \<comment> \<open>"too many shelves (%d)"\<close>
  | ErrNoShelf nat            \<comment> \<open>"no shelf found for size %d"\<close>
  | ErrShelf string           \<comment> \<open>an error returned by a shelf or by openShelf\<close>

datatype panic =
    BadOptions "32 word" "32 word"   \<comment> \<open>"Bad options, min (%d) >= max (%d)"\<close>
  | IndexOutOfRange int nat          \<comment> \<open>Go runtime error: index out of range [i] with length n\<close>

text \<open>A Go call either returns its results or panics (unwinding the caller).\<close>

datatype 'a outcome = Return 'a | Panic panic

record 'r shelf =
  slotSize :: "32 word"
  ref :: 'r

record 'r database =
  shelves :: "'r shelf list"

record Options =
  Path :: string
  Readonly :: bool
  Snappy :: bool

type_synonym 'w OnDataFn = "64 word \<Rightarrow> bytes \<Rightarrow> 'w \<Rightarrow> 'w"

text \<open>
  A \<^verbatim>\<open>SlotSizeFn\<close> is a closure over mutable state. It is a step function on the captured
  state \<open>'g\<close>: one invocation returns \<open>(size, done)\<close> and the updated state.
\<close>

type_synonym 'g SlotSizeFn = "'g \<Rightarrow> (32 word \<times> bool) \<times> 'g"

text \<open>The results of the first \<open>n\<close> successive invocations of a generator.\<close>

fun invocations :: "'g SlotSizeFn \<Rightarrow> 'g \<Rightarrow> nat \<Rightarrow> (32 word \<times> bool) list" where
  "invocations fn g 0 = []"
| "invocations fn g (Suc n) = fst (fn g) # invocations fn (snd (fn g)) n"

text \<open>The result of invocation number \<open>k\<close>, counted from 0.\<close>

fun invocation :: "'g SlotSizeFn \<Rightarrow> 'g \<Rightarrow> nat \<Rightarrow> 32 word \<times> bool" where
  "invocation fn g 0 = fst (fn g)"
| "invocation fn g (Suc k) = invocation fn (snd (fn g)) k"

subsection \<open>Slot-size generators\<close>

text \<open>
  \<^verbatim>\<open>SlotSizePowerOfTwo(min, max)\<close>: panics when \<open>min \<ge> max\<close>, otherwise returns the closure
  whose captured variable \<open>v\<close> starts at \<open>min\<close>. The closure body is \<open>SlotSizePowerOfTwo_fn\<close>:
  \<^verbatim>\<open>ret := v; v += v; return ret, ret >= max\<close>, on \<^verbatim>\<open>uint32\<close> (the parameters
  \<^verbatim>\<open>min\<close> and \<^verbatim>\<open>max\<close> are \<open>min_sz\<close> and \<open>max_sz\<close> here).
\<close>

definition SlotSizePowerOfTwo_fn :: "32 word \<Rightarrow> 32 word SlotSizeFn" where
  "SlotSizePowerOfTwo_fn max_sz v = (let ret = v in ((ret, ret \<ge> max_sz), v + v))"

definition SlotSizePowerOfTwo :: "32 word \<Rightarrow> 32 word \<Rightarrow> (32 word SlotSizeFn \<times> 32 word) outcome" where
  "SlotSizePowerOfTwo min_sz max_sz =
     (if min_sz \<ge> max_sz then Panic (BadOptions min_sz max_sz)
      else Return (SlotSizePowerOfTwo_fn max_sz, min_sz))"

text \<open>
  \<^verbatim>\<open>SlotSizeLinear(size, count)\<close>: the captured variable \<open>i\<close> starts at 1; the closure body is
  \<^verbatim>\<open>ret := size * i; i++; return uint32(ret), i >= count\<close>. The conversion to \<^verbatim>\<open>uint32\<close>
  keeps the low 32 bits (\<open>word_of_int\<close>), also of a product that wrapped around in 64 bits
  (the parameter \<^verbatim>\<open>size\<close> is \<open>sz\<close> here).
\<close>

definition SlotSizeLinear_fn :: "int \<Rightarrow> int \<Rightarrow> int SlotSizeFn" where
  "SlotSizeLinear_fn sz count i =
     (let ret = sz * i; i' = i + 1 in ((word_of_int ret, i' \<ge> count), i'))"

definition SlotSizeLinear :: "int \<Rightarrow> int \<Rightarrow> int SlotSizeFn \<times> int" where
  "SlotSizeLinear sz count = (SlotSizeLinear_fn sz count, 1)"

subsection \<open>Keys\<close>

text \<open>
  \<^verbatim>\<open>id := int(key>>28) & 0xfff\<close>, the first line of both \<^verbatim>\<open>Get\<close> and \<^verbatim>\<open>Delete\<close>; the slot
  passed to the shelf by \<^verbatim>\<open>Get\<close> is \<^verbatim>\<open>key & 0x0FFFFFFF\<close>, by \<^verbatim>\<open>Delete\<close> it is
  \<^verbatim>\<open>key & 0x00FFFFFF\<close>; the key built by \<^verbatim>\<open>Put\<close> and by \<^verbatim>\<open>wrapShelfDataFn\<close> is
  \<^verbatim>\<open>slot | uint64(index)<<28\<close>.
\<close>

definition shelfIndex :: "64 word \<Rightarrow> int" where
  "shelfIndex key = sint (drop_bit 28 key) AND 0xfff"

definition Get_slot :: "64 word \<Rightarrow> 64 word" where
  "Get_slot key = key AND 0x0FFFFFFF"

definition Delete_slot :: "64 word \<Rightarrow> 64 word" where
  "Delete_slot key = key AND 0x00FFFFFF"

definition makeKey :: "64 word \<Rightarrow> nat \<Rightarrow> 64 word" where
  "makeKey slot index = slot OR push_bit 28 (of_nat index)"

subsection \<open>Get and Delete\<close>

text \<open>
  \<^verbatim>\<open>db.shelves[id]\<close> is a bounds-checked slice access: outside \<open>0 \<le> id < len\<close> the Go
  runtime panics, and neither method recovers or checks the index beforehand.
\<close>

definition index_shelves :: "'r database \<Rightarrow> int \<Rightarrow> 'r shelf outcome" where
  "index_shelves db i =
     (if 0 \<le> i \<and> i < int (length (shelves db)) then Return (shelves db ! nat i)
      else Panic (IndexOutOfRange i (length (shelves db))))"

definition Get ::
  "('r shelf \<Rightarrow> 64 word \<Rightarrow> 'w \<Rightarrow> (error + bytes) \<times> 'w) \<Rightarrow>
   'r database \<Rightarrow> 64 word \<Rightarrow> 'w \<Rightarrow> ((error + bytes) \<times> 'w) outcome" where
  "Get shelf_Get db key w =
     (let id = shelfIndex key in
      case index_shelves db id of
        Panic p \<Rightarrow> Panic p
      | Return s \<Rightarrow> Return (shelf_Get s (Get_slot key) w))"

definition Delete ::
  "('r shelf \<Rightarrow> 64 word \<Rightarrow> 'w \<Rightarrow> error option \<times> 'w) \<Rightarrow>
   'r database \<Rightarrow> 64 word \<Rightarrow> 'w \<Rightarrow> (error option \<times> 'w) outcome" where
  "Delete shelf_Delete db key w =
     (let id = shelfIndex key in
      case index_shelves db id of
        Panic p \<Rightarrow> Panic p
      | Return s \<Rightarrow> Return (shelf_Delete s (Delete_slot key) w))"

subsection \<open>Close\<close>

text \<open>
  \<^verbatim>\<open>Close\<close> ranges over \<^verbatim>\<open>db.shelves\<close>; \<open>err\<close> is the local variable that a failing
  \<^verbatim>\<open>shelf.Close()\<close> overwrites.
\<close>

fun Close_loop ::
  "('r shelf \<Rightarrow> 'w \<Rightarrow> error option \<times> 'w) \<Rightarrow> 'r shelf list \<Rightarrow> error option \<Rightarrow> 'w \<Rightarrow>
   error option \<times> 'w" where
  "Close_loop shelf_Close [] err w = (err, w)"
| "Close_loop shelf_Close (s # ss) err w =
     (case shelf_Close s w of
        (Some e, w') \<Rightarrow> Close_loop shelf_Close ss (Some e) w'
      | (None, w') \<Rightarrow> Close_loop shelf_Close ss err w')"

definition Close ::
  "('r shelf \<Rightarrow> 'w \<Rightarrow> error option \<times> 'w) \<Rightarrow> 'r database \<Rightarrow> 'w \<Rightarrow> error option \<times> 'w" where
  "Close shelf_Close db w = Close_loop shelf_Close (shelves db) None w"

text \<open>What each shelf's \<^verbatim>\<open>Close\<close> answers when the shelves are closed in order.\<close>

fun close_results :: "('r shelf \<Rightarrow> 'w \<Rightarrow> error option \<times> 'w) \<Rightarrow> 'r shelf list \<Rightarrow> 'w \<Rightarrow> error option list" where
  "close_results shelf_Close [] w = []"
| "close_results shelf_Close (s # ss) w =
     fst (shelf_Close s w) # close_results shelf_Close ss (snd (shelf_Close s w))"

subsection \<open>Open\<close>

definition wrapShelfDataFn :: "nat \<Rightarrow> 'w OnDataFn option \<Rightarrow> 'w OnDataFn option" where
  "wrapShelfDataFn shelfId onData =
     (case onData of
        None \<Rightarrow> None
      | Some f \<Rightarrow> Some (\<lambda>slot data. let key = makeKey slot shelfId in f key data))"

text \<open>
  The loop \<^verbatim>\<open>for !done\<close> of \<^verbatim>\<open>Open\<close>, over the local variables \<^verbatim>\<open>db\<close>, \<^verbatim>\<open>prevSlotSize\<close>,
  \<^verbatim>\<open>prevId\<close> and \<^verbatim>\<open>done\<close> (here \<open>is_done\<close>), the generator's state \<open>g\<close> and the world \<open>w\<close>.
  \<^verbatim>\<open>openShelf\<close> and the shelf's \<^verbatim>\<open>Close\<close> are the functions of shelf.go. The three error
  exits are in the source's order; only the second one calls \<^verbatim>\<open>db.Close()\<close>, whose own
  result is dropped. Every iteration that goes on has raised \<^verbatim>\<open>prevSlotSize\<close>, a
  \<^verbatim>\<open>uint32\<close>, so the loop ends whatever the generator does.
\<close>

function Open_loop ::
  "(string \<Rightarrow> 32 word \<Rightarrow> 'w OnDataFn option \<Rightarrow> bool \<Rightarrow> 'w \<Rightarrow> (error + 'r shelf) \<times> 'w) \<Rightarrow>
   ('r shelf \<Rightarrow> 'w \<Rightarrow> error option \<times> 'w) \<Rightarrow>
   Options \<Rightarrow> 'g SlotSizeFn \<Rightarrow> 'w OnDataFn option \<Rightarrow>
   'r database \<Rightarrow> 32 word \<Rightarrow> int \<Rightarrow> bool \<Rightarrow> 'g \<Rightarrow> 'w \<Rightarrow> (error + 'r database) \<times> 'w" where
  "Open_loop openShelf shelf_Close opts slotSizeFn onData db prevSlotSize prevId is_done g w =
     (if is_done then (Inr db, w)
      else case slotSizeFn g of ((slotSz, is_done'), g') \<Rightarrow>
        if slotSz \<le> prevSlotSize then (Inl ErrSlotOrder, w)
        else case openShelf (Path opts) slotSz
                    (wrapShelfDataFn (length (shelves db)) onData) (Readonly opts) w of
          (Inl err, w') \<Rightarrow> (Inl err, snd (Close shelf_Close db w'))
        | (Inr shelfet, w') \<Rightarrow>
            let db' = db\<lparr>shelves := shelves db @ [shelfet]\<rparr>;
                id = int (length (shelves db')) AND 0xfff
            in if id < prevId then (Inl (ErrTooManyShelves (length (shelves db'))), w')
               else Open_loop openShelf shelf_Close opts slotSizeFn onData
                      db' slotSz id is_done' g' w')"
  by pat_completeness auto
termination
  apply (relation "measure (\<lambda>(openShelf, shelf_Close, opts, slotSizeFn, onData, db,
                              prevSlotSize, prevId, is_done, g, w). 2 ^ 32 - unat prevSlotSize)")
   apply simp
  apply (simp add: word_le_nat_alt not_le)
  apply (rule diff_less_mono2)
   apply assumption
  apply (rule order_less_le_trans [OF unsigned_less])
  apply simp
  done

definition Open ::
  "(string \<Rightarrow> 32 word \<Rightarrow> 'w OnDataFn option \<Rightarrow> bool \<Rightarrow> 'w \<Rightarrow> (error + 'r shelf) \<times> 'w) \<Rightarrow>
   ('r shelf \<Rightarrow> 'w \<Rightarrow> error option \<times> 'w) \<Rightarrow>
   Options \<Rightarrow> 'g SlotSizeFn \<times> 'g \<Rightarrow> 'w OnDataFn option \<Rightarrow> 'w \<Rightarrow> (error + 'r database) \<times> 'w" where
  "Open openShelf shelf_Close opts gen onData w =
     Open_loop openShelf shelf_Close opts (fst gen) onData
       \<lparr>shelves = []\<rparr> 0 0 False (snd gen) w"

subsection \<open>Put\<close>

text \<open>
  \<^verbatim>\<open>sort.Search(n, f)\<close> of Go's standard library: \<^verbatim>\<open>i, j := 0, n\<close>, and while \<^verbatim>\<open>i < j\<close> the
  midpoint \<^verbatim>\<open>h := int(uint(i+j) >> 1)\<close> replaces \<^verbatim>\<open>i\<close> by \<^verbatim>\<open>h + 1\<close> when \<^verbatim>\<open>!f(h)\<close> and
  \<^verbatim>\<open>j\<close> by \<^verbatim>\<open>h\<close> otherwise; the result is \<^verbatim>\<open>i\<close>.
\<close>

function Search_loop :: "(nat \<Rightarrow> bool) \<Rightarrow> nat \<Rightarrow> nat \<Rightarrow> nat" where
  "Search_loop f i j =
     (if i < j then
        (let h = (i + j) div 2
         in if \<not> f h then Search_loop f (h + 1) j else Search_loop f i h)
      else i)"
  by pat_completeness auto
termination
  by (relation "measure (\<lambda>(f, i, j). j - i)") auto

definition Search :: "nat \<Rightarrow> (nat \<Rightarrow> bool) \<Rightarrow> nat" where
  "Search n f = Search_loop f 0 n"

text \<open>
  \<^verbatim>\<open>itemHeaderSize\<close> is a constant of shelf.go (4 bytes, by the comment on \<^verbatim>\<open>SlotSizeFn\<close>)
  and a parameter here. \<^verbatim>\<open>Search\<close> calls its predicate only at indices below
  \<^verbatim>\<open>len(db.shelves)\<close>, and \<^verbatim>\<open>db.shelves[index]\<close> is reached only when \<open>index\<close> is not that
  length (\<open>Search_le\<close> below), so the slice accesses of \<^verbatim>\<open>Put\<close> are in range. The sum
  \<^verbatim>\<open>len(data)+itemHeaderSize\<close> is an \<^verbatim>\<open>int\<close> far below \<open>2 ^ 63\<close> and does not wrap around.
\<close>

definition Put ::
  "('r shelf \<Rightarrow> bytes \<Rightarrow> 'w \<Rightarrow> (error + 64 word) \<times> 'w) \<Rightarrow> nat \<Rightarrow>
   'r database \<Rightarrow> bytes \<Rightarrow> 'w \<Rightarrow> (error + 64 word) \<times> 'w" where
  "Put shelf_Put itemHeaderSize db data w =
     (let index = Search (length (shelves db))
                    (\<lambda>i. length data + itemHeaderSize \<le> unat (slotSize (shelves db ! i)))
      in if index = length (shelves db) then (Inl (ErrNoShelf (length data)), w)
         else case shelf_Put (shelves db ! index) data w of
                (Inl err, w') \<Rightarrow> (Inl err, w')
              | (Inr slot, w') \<Rightarrow> (Inr (makeKey slot index), w'))"

text \<open>
  The spec's words for the shelf \<^verbatim>\<open>Put\<close> chooses: the smallest index \<open>i\<close> such that
  \<open>shelves[i].slot_size \<ge> len(payload) + header_size\<close>, found here by scanning the indices
  from 0 upwards; \<open>None\<close> when no shelf is large enough.
\<close>

definition smallest_fit :: "nat \<Rightarrow> 'r database \<Rightarrow> nat \<Rightarrow> nat option" where
  "smallest_fit itemHeaderSize db len =
     find (\<lambda>i. len + itemHeaderSize \<le> unat (slotSize (shelves db ! i)))
       [0..<length (shelves db)]"

subsection \<open>A recording shelf\<close>

text \<open>
  Modelled from the spec: shelf.go (\<^verbatim>\<open>openShelf\<close> and the shelf's \<^verbatim>\<open>Put\<close>, \<^verbatim>\<open>Get\<close>,
  \<^verbatim>\<open>Delete\<close> and \<^verbatim>\<open>Close\<close>) is absent from the sources. The general theorems below hold
  for every implementation of these functions. To run the router on concrete inputs, the
  shelf below only records the calls it receives: the world is the list of calls so far.
  A shelf is named by its slot size; \<open>trace_openShelf bad\<close> fails on the sizes in \<open>bad\<close>,
  \<open>trace_Close bad\<close> fails, with the given message, on the shelves listed in \<open>bad\<close>.
\<close>

datatype call =
    OpenShelf "32 word" bool
  | ShelfPut nat bytes
  | ShelfGet nat "64 word"
  | ShelfDelete nat "64 word"
  | ShelfClose nat

type_synonym trace = "call list"

definition trace_openShelf ::
  "32 word list \<Rightarrow> string \<Rightarrow> 32 word \<Rightarrow> trace OnDataFn option \<Rightarrow> bool \<Rightarrow> trace \<Rightarrow>
   (error + nat shelf) \<times> trace" where
  "trace_openShelf bad path sz onData ro t =
     (if sz \<in> set bad then (Inl (ErrShelf ''open''), t @ [OpenShelf sz False])
      else (Inr \<lparr>slotSize = sz, ref = unat sz\<rparr>, t @ [OpenShelf sz True]))"

definition trace_Close ::
  "(nat \<times> string) list \<Rightarrow> nat shelf \<Rightarrow> trace \<Rightarrow> error option \<times> trace" where
  "trace_Close bad s t = (map_option ErrShelf (map_of bad (ref s)), t @ [ShelfClose (ref s)])"

definition trace_Put :: "nat shelf \<Rightarrow> bytes \<Rightarrow> trace \<Rightarrow> (error + 64 word) \<times> trace" where
  "trace_Put s data t = (Inr (of_nat (length t)), t @ [ShelfPut (ref s) data])"

definition trace_Get :: "nat shelf \<Rightarrow> 64 word \<Rightarrow> trace \<Rightarrow> (error + bytes) \<times> trace" where
  "trace_Get s slot t = (Inr [], t @ [ShelfGet (ref s) slot])"

definition trace_Delete :: "nat shelf \<Rightarrow> 64 word \<Rightarrow> trace \<Rightarrow> error option \<times> trace" where
  "trace_Delete s slot t = (None, t @ [ShelfDelete (ref s) slot])"

text \<open>The shelves a trace has opened and not closed.\<close>

fun opened :: "trace \<Rightarrow> nat list" where
  "opened [] = []"
| "opened (OpenShelf sz True # t) = unat sz # opened t"
| "opened (c # t) = opened t"

definition still_open :: "trace \<Rightarrow> nat list" where
  "still_open t = filter (\<lambda>r. ShelfClose r \<notin> set t) (opened t)"

text \<open>A generator that replays a fixed list, and the options and databases of the examples.\<close>

definition fixed_gen :: "(32 word \<times> bool) list SlotSizeFn" where
  "fixed_gen xs = (case xs of [] \<Rightarrow> ((0, True), []) | x # xs' \<Rightarrow> (x, xs'))"

definition opts0 :: Options where
  "opts0 = \<lparr>Path = ''/tmp/billy'', Readonly = False, Snappy = False\<rparr>"

definition db1 :: "nat database" where
  "db1 = \<lparr>shelves = [\<lparr>slotSize = 10, ref = 10\<rparr>]\<rparr>"

definition db3 :: "nat database" where
  "db3 = \<lparr>shelves = [\<lparr>slotSize = 10, ref = 10\<rparr>, \<lparr>slotSize = 20, ref = 20\<rparr>,
                     \<lparr>slotSize = 30, ref = 30\<rparr>]\<rparr>"

section \<open>Slot-size generators\<close>

lemma invocations_numeral:
  "invocations fn g (numeral k) = fst (fn g) # invocations fn (snd (fn g)) (pred_numeral k)"
  by (simp add: numeral_eq_Suc)

lemma invocation_numeral:
  "invocation fn g (numeral k) = invocation fn (snd (fn g)) (pred_numeral k)"
  by (simp add: numeral_eq_Suc)

lemma invocations_nth: "k < n \<Longrightarrow> invocations fn g n ! k = invocation fn g k"
proof (induction n arbitrary: g k)
  case 0
  then show ?case by simp
next
  case (Suc n)
  then show ?case by (cases k) simp_all
qed

lemma length_invocations: "length (invocations fn g n) = n"
  by (induction n arbitrary: g) simp_all

lemma invocation_PowerOfTwo:
  "invocation (SlotSizePowerOfTwo_fn max_sz) v k = (2 ^ k * v, max_sz \<le> 2 ^ k * v)"
proof (induction k arbitrary: v)
  case 0
  show ?case by (simp add: SlotSizePowerOfTwo_fn_def)
next
  case (Suc k)
  have "invocation (SlotSizePowerOfTwo_fn max_sz) v (Suc k)
          = invocation (SlotSizePowerOfTwo_fn max_sz) (v + v) k"
    by (simp add: SlotSizePowerOfTwo_fn_def)
  also have "\<dots> = (2 ^ k * (v + v), max_sz \<le> 2 ^ k * (v + v))"
    by (rule Suc.IH)
  also have "2 ^ k * (v + v) = 2 ^ Suc k * v"
    by (simp add: algebra_simps)
  finally show ?case .
qed

lemma invocation_Linear:
  "invocation (SlotSizeLinear_fn sz count) i k
     = (word_of_int (sz * (i + int k)), count \<le> i + int k + 1)"
proof (induction k arbitrary: i)
  case 0
  show ?case by (simp add: SlotSizeLinear_fn_def Let_def)
next
  case (Suc k)
  have "invocation (SlotSizeLinear_fn sz count) i (Suc k)
          = invocation (SlotSizeLinear_fn sz count) (i + 1) k"
    by (simp add: SlotSizeLinear_fn_def Let_def)
  also have "\<dots> = (word_of_int (sz * (i + 1 + int k)), count \<le> i + 1 + int k + 1)"
    by (rule Suc.IH)
  finally show ?case by (simp add: ac_simps)
qed

text \<open>
  Claim C3. \<^verbatim>\<open>SlotSizeLinear(10, 3)\<close> is claimed to yield \<open>(10, false)\<close>, \<open>(20, false)\<close>,
  \<open>(30, true)\<close>, the done flag of call \<open>i\<close> being \<open>i \<ge> count\<close>. The closure increments \<open>i\<close>
  before it compares, so the flag of call \<open>i\<close> is \<open>i + 1 \<ge> count\<close> (\<open>invocation_Linear\<close>,
  with \<open>i = k + 1\<close>): the second call already answers \<open>(20, true)\<close>, and \<^verbatim>\<open>Open\<close> with this
  generator builds two shelves, not three.
\<close>

theorem C3_SlotSizeLinear_done_early:
  "invocations (fst (SlotSizeLinear 10 3)) (snd (SlotSizeLinear 10 3)) 3
     = [(10, False), (20, True), (30, True)] \<and>
   Open (trace_openShelf []) (trace_Close []) opts0 (SlotSizeLinear 10 3) None []
     = (Inr \<lparr>shelves = [\<lparr>slotSize = 10, ref = 10\<rparr>, \<lparr>slotSize = 20, ref = 20\<rparr>]\<rparr>,
        [OpenShelf 10 True, OpenShelf 20 True])"
  by (simp add: SlotSizeLinear_def SlotSizeLinear_fn_def numeral_3_eq_3 Open_def
      trace_openShelf_def opts0_def wrapShelfDataFn_def)

text \<open>
  With \<open>min = 2 ^ 31\<close> and \<open>max = 2 ^ 32 - 1\<close> the second call yields 0, which is not the
  double of the first: \<^verbatim>\<open>v += v\<close> wraps around in \<^verbatim>\<open>uint32\<close>.
\<close>

theorem C8_doubling_counterexample:
  "(0x80000000 :: 32 word) < 0xFFFFFFFF \<and>
   SlotSizePowerOfTwo 0x80000000 0xFFFFFFFF
     = Return (SlotSizePowerOfTwo_fn 0xFFFFFFFF, 0x80000000) \<and>
   invocations (SlotSizePowerOfTwo_fn 0xFFFFFFFF) 0x80000000 2
     = [(0x80000000, False), (0, False)] \<and>
   unat (fst (invocation (SlotSizePowerOfTwo_fn 0xFFFFFFFF) 0x80000000 1))
     \<noteq> 2 * unat (fst (invocation (SlotSizePowerOfTwo_fn 0xFFFFFFFF) 0x80000000 0))"
  by (simp add: SlotSizePowerOfTwo_def SlotSizePowerOfTwo_fn_def invocations_numeral)

text \<open>
  Claim C8, amended. \<^verbatim>\<open>SlotSizePowerOfTwo(10, 100)\<close> yields \<open>(10, false)\<close>, \<open>(20, false)\<close>,
  \<open>(40, false)\<close>, \<open>(80, false)\<close>, \<open>(160, true)\<close>. For \<open>min < max\<close> the constructor returns the
  closure, whose first call yields \<open>min\<close>; each later call yields the double of the
  previous value modulo \<open>2 ^ 32\<close>, which is the double itself as long as the previous
  value is below \<open>2 ^ 31\<close>; the done flag of a call is true exactly when the value it
  yields is at least \<open>max\<close>. For \<open>min \<ge> max\<close> the constructor panics, before any call.
\<close>

theorem C8_SlotSizePowerOfTwo:
  "invocations (SlotSizePowerOfTwo_fn 100) 10 5
     = [(10, False), (20, False), (40, False), (80, False), (160, True)] \<and>
   (min_sz < max_sz \<longrightarrow>
      SlotSizePowerOfTwo min_sz max_sz = Return (SlotSizePowerOfTwo_fn max_sz, min_sz) \<and>
      fst (invocation (SlotSizePowerOfTwo_fn max_sz) min_sz 0) = min_sz \<and>
      unat (fst (invocation (SlotSizePowerOfTwo_fn max_sz) min_sz (Suc k)))
        = (2 * unat (fst (invocation (SlotSizePowerOfTwo_fn max_sz) min_sz k))) mod 2 ^ 32 \<and>
      (unat (fst (invocation (SlotSizePowerOfTwo_fn max_sz) min_sz k)) < 2 ^ 31 \<longrightarrow>
         unat (fst (invocation (SlotSizePowerOfTwo_fn max_sz) min_sz (Suc k)))
           = 2 * unat (fst (invocation (SlotSizePowerOfTwo_fn max_sz) min_sz k))) \<and>
      snd (invocation (SlotSizePowerOfTwo_fn max_sz) min_sz k)
        = (max_sz \<le> fst (invocation (SlotSizePowerOfTwo_fn max_sz) min_sz k))) \<and>
   (max_sz \<le> min_sz \<longrightarrow> SlotSizePowerOfTwo min_sz max_sz = Panic (BadOptions min_sz max_sz))"
proof -
  let ?F = "SlotSizePowerOfTwo_fn max_sz"
  have ex: "invocations (SlotSizePowerOfTwo_fn 100) 10 5
     = [(10, False), (20, False), (40, False), (80, False), (160, True)]"
    by (simp add: SlotSizePowerOfTwo_fn_def invocations_numeral)
  have m: "unat (fst (invocation ?F min_sz (Suc k)))
        = (2 * unat (fst (invocation ?F min_sz k))) mod 2 ^ 32"
  proof -
    have "fst (invocation ?F min_sz (Suc k)) = 2 * fst (invocation ?F min_sz k)"
      by (simp only: invocation_PowerOfTwo fst_conv power_Suc mult.assoc)
    thus ?thesis by (simp add: unat_word_ariths)
  qed
  have e: "unat (fst (invocation ?F min_sz (Suc k))) = 2 * unat (fst (invocation ?F min_sz k))"
    if "unat (fst (invocation ?F min_sz k)) < 2 ^ 31"
    using that unfolding m by simp
  have r: "SlotSizePowerOfTwo min_sz max_sz = Return (?F, min_sz)" if "min_sz < max_sz"
    using that by (simp add: SlotSizePowerOfTwo_def not_le)
  have f: "fst (invocation ?F min_sz 0) = min_sz"
    by (simp add: SlotSizePowerOfTwo_fn_def)
  have d: "snd (invocation ?F min_sz k) = (max_sz \<le> fst (invocation ?F min_sz k))"
    by (simp only: invocation_PowerOfTwo fst_conv snd_conv)
  have p: "SlotSizePowerOfTwo min_sz max_sz = Panic (BadOptions min_sz max_sz)"
    if "max_sz \<le> min_sz"
    using that by (simp add: SlotSizePowerOfTwo_def)
  show ?thesis
    using ex r f m e d p by blast
qed

theorem C8_SlotSizePowerOfTwo_witness:
  "(10 :: 32 word) < 100 \<and>
   SlotSizePowerOfTwo 10 100 = Return (SlotSizePowerOfTwo_fn 100, 10) \<and>
   invocation (SlotSizePowerOfTwo_fn 100) 10 0 = (10, False) \<and>
   invocation (SlotSizePowerOfTwo_fn 100) 10 1 = (20, False) \<and>
   unat (20 :: 32 word) = 2 * unat (10 :: 32 word) \<and>
   (10 :: 32 word) \<le> 100 \<and>
   SlotSizePowerOfTwo 100 10 = Panic (BadOptions 100 10)"
  using C8_SlotSizePowerOfTwo [of 10 100 0] C8_SlotSizePowerOfTwo [of 100 10 0]
  by (simp add: SlotSizePowerOfTwo_fn_def)

section \<open>Close\<close>

lemma length_close_results: "length (close_results c ss w) = length ss"
  by (induction ss arbitrary: w) auto

lemma Close_loop_world:
  "snd (Close_loop c ss err w) = fold (\<lambda>s w. snd (c s w)) ss w"
  by (induction ss arbitrary: err w) (auto split: prod.splits option.splits)

lemma Close_loop_error:
  "fst (Close_loop c ss err w) = last (err # filter (\<lambda>r. r \<noteq> None) (close_results c ss w))"
  by (induction ss arbitrary: err w) (auto split: prod.splits option.splits)

text \<open>
  Claim C9. \<^verbatim>\<open>Close\<close> calls \<^verbatim>\<open>Close\<close> on every shelf, in order and whatever the earlier
  ones answered: there is one answer per shelf and the final world is the world after all
  of them. The error returned is the last failure among the answers, and \<open>None\<close> (nil)
  when no shelf failed.
\<close>

theorem C9_Close_all_last_error:
  "length (close_results shelf_Close (shelves db) w) = length (shelves db) \<and>
   snd (Close shelf_Close db w) = fold (\<lambda>s w. snd (shelf_Close s w)) (shelves db) w \<and>
   fst (Close shelf_Close db w)
     = last (None # filter (\<lambda>r. r \<noteq> None) (close_results shelf_Close (shelves db) w))"
  by (simp add: Close_def length_close_results Close_loop_world Close_loop_error)

lemma Close_example:
  "Close (trace_Close [(10, ''first''), (20, ''second'')]) db3 []
     = (Some (ErrShelf ''second''), [ShelfClose 10, ShelfClose 20, ShelfClose 30])"
  by (simp add: Close_def db3_def trace_Close_def)

section \<open>Open\<close>

text \<open>
  Claim C2. A generator whose sizes are not strictly increasing is claimed to make
  \<^verbatim>\<open>Open\<close> return a configuration error after closing the shelves it had opened. On the
  generator yielding \<open>(30, false)\<close>, \<open>(20, true)\<close> the error is returned, but \<^verbatim>\<open>Open\<close> made
  no call to \<^verbatim>\<open>Close\<close>: the shelf of slot size 30 stays open.
\<close>

theorem C2_Open_order_error_leaks:
  "Open (trace_openShelf []) (trace_Close []) opts0 (fixed_gen, [(30, False), (20, True)]) None []
     = (Inl ErrSlotOrder, [OpenShelf 30 True]) \<and>
   still_open [OpenShelf 30 True] = [30]"
  by (simp add: Open_def fixed_gen_def trace_openShelf_def opts0_def wrapShelfDataFn_def
      still_open_def)

text \<open>The other error exit, a failing \<^verbatim>\<open>openShelf\<close>, does close what was opened.\<close>

lemma Open_shelf_error_closes:
  "Open (trace_openShelf [20]) (trace_Close []) opts0 (fixed_gen, [(10, False), (20, True)]) None []
     = (Inl (ErrShelf ''open''), [OpenShelf 10 True, OpenShelf 20 False, ShelfClose 10]) \<and>
   still_open [OpenShelf 10 True, OpenShelf 20 False, ShelfClose 10] = []"
  by (simp add: Open_def fixed_gen_def trace_openShelf_def trace_Close_def opts0_def
      wrapShelfDataFn_def still_open_def Close_def)

subsection \<open>The shelf count\<close>

text \<open>
  Along the loop \<^verbatim>\<open>prevId\<close> is the number of shelves, which stays below 4096: the
  iteration that appends shelf number 4096 computes \<open>id = 0 < 4095 = prevId\<close> and leaves
  with the error.
\<close>

lemma and_fff_small: "0 \<le> n \<Longrightarrow> n < 4096 \<Longrightarrow> (n :: int) AND 0xfff = n"
proof -
  assume a: "0 \<le> n" "n < 4096"
  have m: "(0xfff::int) = mask 12" by (simp add: mask_eq_exp_minus_1)
  have "n AND mask 12 = n mod 2 ^ 12"
    by (simp add: take_bit_eq_mask [symmetric] take_bit_eq_mod)
  thus ?thesis using a by (simp add: m)
qed

lemma Open_loop_bound:
  assumes "Open_loop openShelf shelf_Close opts fn onData db prevSlotSize prevId is_done g w
             = (Inr db', w')"
    and "prevId = int (length (shelves db))" and "length (shelves db) < 4096"
  shows "length (shelves db') < 4096"
  using assms
proof (induction openShelf shelf_Close opts fn onData db prevSlotSize prevId is_done g w
       rule: Open_loop.induct)
  case (1 openShelf shelf_Close opts fn onData db prevSlotSize prevId is_done g w)
  show ?case
  proof (cases is_done)
    case True
    with "1.prems"(1) have "db' = db" by (subst (asm) Open_loop.simps) simp
    with "1.prems"(3) show ?thesis by simp
  next
    case False
    obtain slotSz dn g' where gen: "fn g = ((slotSz, dn), g')"
      by (metis prod.exhaust)
    let ?open = "openShelf (Path opts) slotSz
                   (wrapShelfDataFn (length (shelves db)) onData) (Readonly opts) w"
    obtain res w1 where op: "?open = (res, w1)" by (metis prod.exhaust)
    from "1.prems"(1) False gen op
    have ord: "\<not> slotSz \<le> prevSlotSize"
      by (subst (asm) Open_loop.simps) (auto split: if_splits)
    from "1.prems"(1) False gen op ord
    obtain shelfet where res: "res = Inr shelfet"
      by (subst (asm) Open_loop.simps) (auto split: sum.splits)
    let ?db = "db\<lparr>shelves := shelves db @ [shelfet]\<rparr>"
    let ?id = "int (length (shelves ?db)) AND 0xfff"
    from "1.prems"(1) False gen op ord res
    have run: "\<not> ?id < prevId \<and>
               Open_loop openShelf shelf_Close opts fn onData ?db slotSz ?id dn g' w1 = (Inr db', w')"
      by (subst (asm) Open_loop.simps) (auto simp add: Let_def split: if_splits)
    have small: "length (shelves ?db) < 4096"
    proof (rule ccontr)
      assume "\<not> length (shelves ?db) < 4096"
      with "1.prems"(3) have "int (length (shelves ?db)) = 4096" by simp
      hence "?id = 0" by simp
      with run "1.prems"(2,3) \<open>int (length (shelves ?db)) = 4096\<close> show False by simp
    qed
    hence idv: "?id = int (length (shelves ?db))" by (intro and_fff_small) simp_all
    show ?thesis
      using "1.IH" [OF False gen [symmetric] refl ord op [symmetric] res refl refl _ _ idv small]
        run by simp
  qed
qed


lemma Open_loop_too_many:
  assumes "length (shelves db) = 4095" and "prevId = 4095" and "\<not> is_done"
    and "fn g = ((slotSz, dn), g')" and "\<not> slotSz \<le> prevSlotSize"
    and "openShelf (Path opts) slotSz (wrapShelfDataFn (length (shelves db)) onData)
           (Readonly opts) w = (Inr shelfet, w')"
  shows "Open_loop openShelf shelf_Close opts fn onData db prevSlotSize prevId is_done g w
           = (Inl (ErrTooManyShelves 4096), w')"
  using assms by (subst Open_loop.simps) simp

text \<open>
  From any state of the loop, if \<^verbatim>\<open>openShelf\<close> never fails and the generator goes on with
  increasing sizes and without the done flag until the 4096th shelf, the loop leaves with
  the too-many-shelves error.
\<close>

lemma Open_loop_overflows:
  assumes ok: "\<And>p sz cb ro v. \<exists>sh v'. openShelf p sz cb ro v = (Inr sh, v')"
    and n: "length (shelves db) + m = 4095" and pid: "prevId = int (length (shelves db))"
    and first: "prevSlotSize < fst (invocation fn g 0)"
    and incr: "\<And>k. k < m \<Longrightarrow> fst (invocation fn g k) < fst (invocation fn g (Suc k))"
    and going: "\<And>k. k < m \<Longrightarrow> \<not> snd (invocation fn g k)"
  shows "fst (Open_loop openShelf shelf_Close opts fn onData db prevSlotSize prevId False g w)
           = Inl (ErrTooManyShelves 4096)"
  using n pid first incr going
proof (induction m arbitrary: db prevSlotSize prevId g w)
  case 0
  obtain slotSz dn g' where gen: "fn g = ((slotSz, dn), g')" by (metis prod.exhaust)
  from ok obtain shelfet w1 where
    op: "openShelf (Path opts) slotSz (wrapShelfDataFn (length (shelves db)) onData)
           (Readonly opts) w = (Inr shelfet, w1)"
    by blast
  from "0.prems"(3) gen have ord: "\<not> slotSz \<le> prevSlotSize" by (simp add: not_le)
  from "0.prems"(1,2) have l: "length (shelves db) = 4095" and p: "prevId = 4095"
    by simp_all
  have "Open_loop openShelf shelf_Close opts fn onData db prevSlotSize prevId False g w
          = (Inl (ErrTooManyShelves 4096), w1)"
    using l p gen ord op by (intro Open_loop_too_many) simp_all
  thus ?case by simp
next
  case (Suc m)
  obtain slotSz dn g' where gen: "fn g = ((slotSz, dn), g')" by (metis prod.exhaust)
  from ok obtain shelfet w1 where
    op: "openShelf (Path opts) slotSz (wrapShelfDataFn (length (shelves db)) onData)
           (Readonly opts) w = (Inr shelfet, w1)"
    by blast
  from Suc.prems(3) gen have ord: "\<not> slotSz \<le> prevSlotSize" by (simp add: not_le)
  from Suc.prems(5) [of 0] gen have dn: "\<not> dn" by simp
  let ?db = "db\<lparr>shelves := shelves db @ [shelfet]\<rparr>"
  have len: "length (shelves ?db) + m = 4095" using Suc.prems(1) by simp
  hence idv: "int (length (shelves ?db)) AND 0xfff = int (length (shelves ?db))"
    by (intro and_fff_small) simp_all
  have step: "Open_loop openShelf shelf_Close opts fn onData db prevSlotSize prevId False g w
      = Open_loop openShelf shelf_Close opts fn onData ?db slotSz
          (int (length (shelves ?db))) False g' w1"
    using gen op ord dn idv Suc.prems(2)
    by (subst Open_loop.simps) (simp add: Let_def)
  have shift: "invocation fn g' k = invocation fn g (Suc k)" for k
    using gen by simp
  have first': "slotSz < fst (invocation fn g' 0)"
    using Suc.prems(4) [of 0] gen by simp
  have "fst (Open_loop openShelf shelf_Close opts fn onData ?db slotSz
          (int (length (shelves ?db))) False g' w1) = Inl (ErrTooManyShelves 4096)"
  proof (rule Suc.IH [OF len refl first'])
    fix k assume "k < m"
    thus "fst (invocation fn g' k) < fst (invocation fn g' (Suc k))"
      unfolding shift using Suc.prems(4) [of "Suc k"] by simp
  next
    fix k assume "k < m"
    thus "\<not> snd (invocation fn g' k)"
      unfolding shift using Suc.prems(5) [of "Suc k"] by simp
  qed
  thus ?case by (simp only: step)
qed

text \<open>
  The generator \<^verbatim>\<open>SlotSizeLinear(1, 5000)\<close> yields the sizes 1, 2, 3, ... and sets the done
  flag from its call number 4999 on.
\<close>

lemma Linear_5000:
  "invocation (fst (SlotSizeLinear 1 5000)) (snd (SlotSizeLinear 1 5000)) k
     = (word_of_nat (Suc k), 4998 \<le> k)"
  by (simp add: SlotSizeLinear_def invocation_Linear) 

lemma word32_of_nat_less:
  assumes "a < b" and "b < 4294967296"
  shows "(word_of_nat a :: 32 word) < word_of_nat b"
  using assms by (simp add: word_of_nat_less_iff take_bit_nat_eq_self)

text \<open>
  Claim C7. Every database that \<^verbatim>\<open>Open\<close> returns without error has at most 4096 shelves,
  indeed fewer than 4096, for every generator, every \<^verbatim>\<open>openShelf\<close> and every world. And
  the masked-count check does fail: whenever \<^verbatim>\<open>openShelf\<close> never fails and the first 4096
  sizes of the generator are positive and strictly increasing with no done flag on the
  first 4095 calls, \<^verbatim>\<open>Open\<close> returns the error "too many shelves (4096)" and no database.
\<close>

theorem C7_Open_at_most_4096_shelves:
  "(Open openShelf shelf_Close opts gen onData w = (Inr db, w') \<longrightarrow>
      length (shelves db) < 4096) \<and>
   ((\<forall>p sz cb ro v. \<exists>sh v'. openShelf p sz cb ro v = (Inr sh, v')) \<and>
    0 < fst (invocation (fst gen) (snd gen) 0) \<and>
    (\<forall>k < 4095. fst (invocation (fst gen) (snd gen) k)
                   < fst (invocation (fst gen) (snd gen) (Suc k)) \<and>
                 \<not> snd (invocation (fst gen) (snd gen) k)) \<longrightarrow>
      fst (Open openShelf shelf_Close opts gen onData w) = Inl (ErrTooManyShelves 4096))"
proof (intro conjI impI)
  assume "Open openShelf shelf_Close opts gen onData w = (Inr db, w')"
  thus "length (shelves db) < 4096"
    unfolding Open_def by (rule Open_loop_bound) simp_all
next
  assume h: "(\<forall>p sz cb ro v. \<exists>sh v'. openShelf p sz cb ro v = (Inr sh, v')) \<and>
    0 < fst (invocation (fst gen) (snd gen) 0) \<and>
    (\<forall>k < 4095. fst (invocation (fst gen) (snd gen) k)
                   < fst (invocation (fst gen) (snd gen) (Suc k)) \<and>
                 \<not> snd (invocation (fst gen) (snd gen) k))"
  show "fst (Open openShelf shelf_Close opts gen onData w) = Inl (ErrTooManyShelves 4096)"
    unfolding Open_def
  proof (rule Open_loop_overflows [where m = 4095])
    show "\<exists>sh v'. openShelf p sz cb ro v = (Inr sh, v')" for p sz cb ro v
      using h by blast
  qed (use h in simp_all)
qed

text \<open>
  A generator of three sizes, for which \<^verbatim>\<open>Open\<close> succeeds, and \<^verbatim>\<open>SlotSizeLinear(1, 5000)\<close>,
  for which it fails at the 4096th shelf.
\<close>

theorem C7_Open_at_most_4096_shelves_witness:
  "Open (trace_openShelf []) (trace_Close []) opts0 (fixed_gen, [(10, False), (20, False), (30, True)])
      None []
     = (Inr db3, [OpenShelf 10 True, OpenShelf 20 True, OpenShelf 30 True]) \<and>
   length (shelves db3) < 4096 \<and>
   fst (Open (trace_openShelf []) (trace_Close []) opts0 (SlotSizeLinear 1 5000) None [])
     = Inl (ErrTooManyShelves 4096)"
proof -
  have h: "Open (trace_openShelf []) (trace_Close []) opts0
             (fixed_gen, [(10, False), (20, False), (30, True)]) None []
           = (Inr db3, [OpenShelf 10 True, OpenShelf 20 True, OpenShelf 30 True])"
    by (simp add: Open_def fixed_gen_def trace_openShelf_def opts0_def wrapShelfDataFn_def
        db3_def)
  have ok: "\<forall>p sz cb ro v. \<exists>sh v'. trace_openShelf [] p sz cb ro v = (Inr sh, v')"
    by (simp add: trace_openShelf_def)
  have z: "0 < fst (invocation (fst (SlotSizeLinear 1 5000)) (snd (SlotSizeLinear 1 5000)) 0)"
    unfolding Linear_5000 by simp
  have s: "\<forall>k < 4095.
      fst (invocation (fst (SlotSizeLinear 1 5000)) (snd (SlotSizeLinear 1 5000)) k)
        < fst (invocation (fst (SlotSizeLinear 1 5000)) (snd (SlotSizeLinear 1 5000)) (Suc k)) \<and>
      \<not> snd (invocation (fst (SlotSizeLinear 1 5000)) (snd (SlotSizeLinear 1 5000)) k)"
    unfolding Linear_5000 fst_conv snd_conv
    by (intro allI impI conjI word32_of_nat_less) simp_all
  from C7_Open_at_most_4096_shelves
         [of "trace_openShelf []" "trace_Close []" opts0
             "(fixed_gen, [(10, False), (20, False), (30, True)])" None "[]" db3
             "[OpenShelf 10 True, OpenShelf 20 True, OpenShelf 30 True]"] h
  have a: "length (shelves db3) < 4096" by blast
  from C7_Open_at_most_4096_shelves
         [of "trace_openShelf []" "trace_Close []" opts0 "SlotSizeLinear 1 5000" None "[]"]
       ok z s
  have b: "fst (Open (trace_openShelf []) (trace_Close []) opts0 (SlotSizeLinear 1 5000) None [])
             = Inl (ErrTooManyShelves 4096)"
    by blast
  from h a b show ?thesis by simp
qed

section \<open>Put\<close>

text \<open>
  The binary search keeps every index below \<open>i\<close> failing the predicate and every index
  from \<open>j\<close> on satisfying it, provided the predicate is monotone below \<open>n\<close>.
\<close>

lemma Search_loop_spec:
  assumes "i \<le> j" and "j \<le> n"
    and mono: "\<And>a b. a \<le> b \<Longrightarrow> b < n \<Longrightarrow> f a \<Longrightarrow> f b"
    and "\<And>k. k < i \<Longrightarrow> \<not> f k" and "\<And>k. j \<le> k \<Longrightarrow> k < n \<Longrightarrow> f k"
  shows "Search_loop f i j \<le> n \<and> (\<forall>k < Search_loop f i j. \<not> f k) \<and>
         (Search_loop f i j < n \<longrightarrow> f (Search_loop f i j))"
  using assms
proof (induction f i j rule: Search_loop.induct)
  case (1 f i j)
  show ?case
  proof (cases "i < j")
    case False
    with "1.prems" have "Search_loop f i j = i" and "i = j"
      by (simp_all add: Search_loop.simps)
    with "1.prems" show ?thesis by auto
  next
    case True
    let ?h = "(i + j) div 2"
    have h: "i \<le> ?h" "?h < j" using True by auto
    show ?thesis
    proof (cases "f ?h")
      case False
      have eq: "Search_loop f i j = Search_loop f (?h + 1) j"
        using True False by (subst Search_loop.simps) (simp add: Let_def)
      have low: "\<not> f k" if "k < ?h + 1" for k
      proof
        assume "f k"
        from that have "k \<le> ?h" by simp
        moreover have "?h < n" using h "1.prems"(2) by simp
        ultimately have "f ?h" using \<open>f k\<close> by (rule "1.prems"(3))
        with False show False ..
      qed
      have "?h + 1 \<le> j" using h by simp
      from "1.IH"(1) [OF True refl False this "1.prems"(2) "1.prems"(3) low "1.prems"(5)]
      show ?thesis unfolding eq by simp
    next
      case fh: True
      have eq: "Search_loop f i j = Search_loop f i ?h"
        using True fh by (subst Search_loop.simps) (simp add: Let_def)
      have hn: "?h \<le> n" using h "1.prems"(2) by simp
      have high: "f k" if "?h \<le> k" "k < n" for k
        using that fh by (rule "1.prems"(3))
      have nfh: "\<not> \<not> f ?h" using fh by simp
      from "1.IH"(2) [OF True refl nfh h(1) hn "1.prems"(3) "1.prems"(4) high]
      show ?thesis unfolding eq by simp
    qed
  qed
qed

lemma Search_spec:
  assumes "\<And>a b. a \<le> b \<Longrightarrow> b < n \<Longrightarrow> f a \<Longrightarrow> f b"
  shows "Search n f \<le> n \<and> (\<forall>k < Search n f. \<not> f k) \<and> (Search n f < n \<longrightarrow> f (Search n f))"
  unfolding Search_def using assms by (intro Search_loop_spec) simp_all

lemma Search_loop_range: "i \<le> j \<Longrightarrow> i \<le> Search_loop f i j \<and> Search_loop f i j \<le> j"
proof (induction f i j rule: Search_loop.induct)
  case (1 f i j)
  show ?case
  proof (cases "i < j")
    case False
    with "1.prems" show ?thesis by (simp add: Search_loop.simps)
  next
    case True
    let ?h = "(i + j) div 2"
    have h: "i \<le> ?h" "?h + 1 \<le> j" using True by auto
    show ?thesis
    proof (cases "f ?h")
      case False
      have "Search_loop f i j = Search_loop f (?h + 1) j"
        using True False by (subst Search_loop.simps) (simp add: Let_def)
      with "1.IH"(1) [OF True refl False h(2)] h show ?thesis by simp
    next
      case fh: True
      have nfh: "\<not> \<not> f ?h" using fh by simp
      have "Search_loop f i j = Search_loop f i ?h"
        using True fh by (subst Search_loop.simps) (simp add: Let_def)
      with "1.IH"(2) [OF True refl nfh h(1)] h show ?thesis by simp
    qed
  qed
qed

lemma Search_le: "Search n f \<le> n"
  unfolding Search_def using Search_loop_range [of 0 n f] by simp

lemma slotSize_mono:
  assumes "sorted_wrt (<) (map slotSize (shelves db))" and "a \<le> b" and "b < length (shelves db)"
  shows "unat (slotSize (shelves db ! a)) \<le> unat (slotSize (shelves db ! b))"
proof (cases "a = b")
  case True
  thus ?thesis by simp
next
  case False
  with assms(2) have "a < b" by simp
  with assms(1,3) have "map slotSize (shelves db) ! a < map slotSize (shelves db) ! b"
    by (intro sorted_wrt_nth_less) simp_all
  with assms(3) \<open>a < b\<close> have "slotSize (shelves db ! a) < slotSize (shelves db ! b)" by simp
  thus ?thesis by (simp add: word_less_nat_alt)
qed

lemma Search_smallest_fit:
  assumes "sorted_wrt (<) (map slotSize (shelves db))"
  shows "smallest_fit hdr db len
           = (let index = Search (length (shelves db))
                            (\<lambda>i. len + hdr \<le> unat (slotSize (shelves db ! i)))
              in if index = length (shelves db) then None else Some index)"
proof -
  let ?n = "length (shelves db)"
  let ?f = "\<lambda>i. len + hdr \<le> unat (slotSize (shelves db ! i))"
  have mono: "?f b" if "a \<le> b" "b < ?n" "?f a" for a b
    using slotSize_mono [OF assms that(1,2)] that(3) by simp
  have sp: "Search ?n ?f \<le> ?n \<and> (\<forall>k < Search ?n ?f. \<not> ?f k) \<and>
            (Search ?n ?f < ?n \<longrightarrow> ?f (Search ?n ?f))"
    by (rule Search_spec) (rule mono)
  show ?thesis
  proof (cases "Search ?n ?f = ?n")
    case True
    with sp have "\<forall>k < ?n. \<not> ?f k" by simp
    hence "find ?f [0..<?n] = None" by (simp add: find_None_iff)
    with True show ?thesis by (simp add: smallest_fit_def)
  next
    case False
    with sp have lt: "Search ?n ?f < ?n" by simp
    with sp have "find ?f [0..<?n] = Some (Search ?n ?f)"
      by (auto simp add: find_Some_iff intro!: exI [of _ "Search ?n ?f"])
    with False show ?thesis by (simp add: smallest_fit_def)
  qed
qed

text \<open>
  Claim C4. On a database whose shelves are in strictly ascending order of slot size,
  \<^verbatim>\<open>Put\<close> hands the payload to the shelf at the smallest index whose slot size is at least
  \<open>len(payload) + itemHeaderSize\<close>, returning that shelf's error or the key built from its
  slot; when no shelf is large enough it returns "no shelf found" and the world is
  unchanged, whatever the shelf's \<^verbatim>\<open>Put\<close> would do: it is not called.
\<close>

theorem C4_Put_best_fit:
  assumes "sorted_wrt (<) (map slotSize (shelves db))"
  shows "Put shelf_Put itemHeaderSize db data w =
           (case smallest_fit itemHeaderSize db (length data) of
              None \<Rightarrow> (Inl (ErrNoShelf (length data)), w)
            | Some i \<Rightarrow>
                (case shelf_Put (shelves db ! i) data w of
                   (Inl err, w') \<Rightarrow> (Inl err, w')
                 | (Inr slot, w') \<Rightarrow> (Inr (makeKey slot i), w')))"
  unfolding Search_smallest_fit [OF assms] Put_def by (simp add: Let_def)

lemma smallest_fit_Some:
  "smallest_fit hdr db len = Some i \<longleftrightarrow>
     i < length (shelves db) \<and> len + hdr \<le> unat (slotSize (shelves db ! i)) \<and>
     (\<forall>j < i. \<not> len + hdr \<le> unat (slotSize (shelves db ! j)))"
  by (auto simp add: smallest_fit_def find_Some_iff)

lemma smallest_fit_None:
  "smallest_fit hdr db len = None \<longleftrightarrow>
     (\<forall>i < length (shelves db). \<not> len + hdr \<le> unat (slotSize (shelves db ! i)))"
  by (auto simp add: smallest_fit_def find_None_iff)

theorem C4_Put_best_fit_witness:
  "sorted_wrt (<) (map slotSize (shelves db3)) \<and>
   smallest_fit 4 db3 (length [1, 2, 3, 4, 5, 6, 7 :: 8 word]) = Some 1 \<and>
   Put trace_Put 4 db3 [1, 2, 3, 4, 5, 6, 7] []
     = (Inr 0x10000000, [ShelfPut 20 [1, 2, 3, 4, 5, 6, 7]]) \<and>
   smallest_fit 4 db3 (length (replicate 27 (0 :: 8 word))) = None \<and>
   Put trace_Put 4 db3 (replicate 27 0) [] = (Inl (ErrNoShelf 27), [])"
proof -
  have h: "sorted_wrt (<) (map slotSize (shelves db3))" by (simp add: db3_def)
  have a: "smallest_fit 4 db3 (length [1, 2, 3, 4, 5, 6, 7 :: 8 word]) = Some 1"
    by (simp add: smallest_fit_def db3_def upt_conv_Cons)
  have b: "smallest_fit 4 db3 (length (replicate 27 (0 :: 8 word))) = None"
    by (simp add: smallest_fit_def db3_def upt_conv_Cons)
  have s: "shelves db3 ! 1 = \<lparr>slotSize = 20, ref = 20\<rparr>" by (simp add: db3_def)
  from C4_Put_best_fit [OF h, of trace_Put 4 "[1, 2, 3, 4, 5, 6, 7]" "[]"]
       C4_Put_best_fit [OF h, of trace_Put 4 "replicate 27 0" "[]"] h a b s
  show ?thesis by (simp add: trace_Put_def makeKey_def)
qed

section \<open>Keys: decoding, encoding and the shelf index\<close>

text \<open>
  Masking with \<^verbatim>\<open>0xfff\<close> after the conversion to \<^verbatim>\<open>int\<close> leaves bits 28 to 39 of the key,
  whatever sign the conversion produced.
\<close>

lemma shelfIndex_eq: "shelfIndex key = uint (take_bit 12 (drop_bit 28 key))"
proof -
  have m: "(0xfff::int) = mask 12" by (simp add: mask_eq_exp_minus_1)
  show ?thesis
    unfolding shelfIndex_def m
    by (rule bit_eqI)
       (auto simp add: bit_and_iff bit_mask_iff bit_take_bit_iff bit_uint_iff bit_sint_iff
          bit_drop_bit_eq)
qed

lemma shelfIndex_range: "0 \<le> shelfIndex key \<and> shelfIndex key < 4096"
proof -
  have "take_bit 12 (uint (drop_bit 28 key)) < 2 ^ 12"
    by (rule take_bit_int_less_exp)
  thus ?thesis by (simp add: shelfIndex_eq unsigned_take_bit_eq)
qed

lemma Get_slot_eq: "Get_slot key = take_bit 28 key"
proof -
  have "(0x0FFFFFFF::64 word) = mask 28" by (simp add: mask_eq_exp_minus_1)
  thus ?thesis by (simp add: Get_slot_def take_bit_eq_mask)
qed

lemma Delete_slot_eq: "Delete_slot key = take_bit 24 key"
proof -
  have "(0x00FFFFFF::64 word) = mask 24" by (simp add: mask_eq_exp_minus_1)
  thus ?thesis by (simp add: Delete_slot_def take_bit_eq_mask)
qed

lemma low40_shelfIndex:
  assumes "take_bit 40 k1 = take_bit 40 (k2 :: 64 word)"
  shows "shelfIndex k1 = shelfIndex k2"
proof -
  have "take_bit 12 (drop_bit 28 k) = drop_bit 28 (take_bit 40 k)" for k :: "64 word"
    by (simp add: drop_bit_take_bit)
  thus ?thesis using assms by (simp add: shelfIndex_eq)
qed

lemma low40_take_bit:
  assumes "take_bit 40 k1 = take_bit 40 (k2 :: 64 word)" and "n \<le> 40"
  shows "take_bit n k1 = take_bit n k2"
proof -
  have "take_bit n k = take_bit n (take_bit 40 k)" for k :: "64 word"
    using assms(2) by (simp add: min_def)
  thus ?thesis using assms(1) by metis
qed

text \<open>
  Claim C10. \<^verbatim>\<open>Get\<close> and \<^verbatim>\<open>Delete\<close> ignore bits 40 and above of the key: two keys with the
  same low 40 bits decode to the same shelf index and the same slot (each method with its
  own mask), so \<^verbatim>\<open>Get\<close> behaves identically on both keys, and so does \<^verbatim>\<open>Delete\<close>, for
  every database, every shelf implementation and every world.
\<close>

theorem C10_high_bits_ignored:
  assumes "take_bit 40 k1 = take_bit 40 (k2 :: 64 word)"
  shows "shelfIndex k1 = shelfIndex k2 \<and> Get_slot k1 = Get_slot k2 \<and>
         Delete_slot k1 = Delete_slot k2 \<and>
         Get shelf_Get db k1 w = Get shelf_Get db k2 w \<and>
         Delete shelf_Delete db k1 w = Delete shelf_Delete db k2 w"
proof -
  have i: "shelfIndex k1 = shelfIndex k2" using assms by (rule low40_shelfIndex)
  have g: "Get_slot k1 = Get_slot k2"
    unfolding Get_slot_eq using assms by (rule low40_take_bit) simp
  have d: "Delete_slot k1 = Delete_slot k2"
    unfolding Delete_slot_eq using assms by (rule low40_take_bit) simp
  show ?thesis unfolding Get_def Delete_def i g d by simp
qed

text \<open>Two keys that differ in bits 40 and above only, on a database of three shelves.\<close>

theorem C10_high_bits_ignored_witness:
  "take_bit 40 (0xABC0010000005 :: 64 word) = take_bit 40 (0x10000005 :: 64 word) \<and>
   Get trace_Get db3 0xABC0010000005 [] = Get trace_Get db3 0x10000005 [] \<and>
   Get trace_Get db3 0x10000005 [] = Return (Inr [], [ShelfGet 20 5]) \<and>
   Delete trace_Delete db3 0xABC0010000005 [] = Delete trace_Delete db3 0x10000005 [] \<and>
   Delete trace_Delete db3 0x10000005 [] = Return (None, [ShelfDelete 20 5])"
proof -
  have h: "take_bit 40 (0xABC0010000005 :: 64 word) = take_bit 40 (0x10000005 :: 64 word)"
    by simp
  have g: "Get trace_Get db3 0x10000005 [] = Return (Inr [], [ShelfGet 20 5])"
    by (simp add: Get_def index_shelves_def shelfIndex_def Get_slot_def trace_Get_def db3_def)
  have d: "Delete trace_Delete db3 0x10000005 [] = Return (None, [ShelfDelete 20 5])"
    by (simp add: Delete_def index_shelves_def shelfIndex_def Delete_slot_def trace_Delete_def db3_def)
  from C10_high_bits_ignored [OF h, of trace_Get db3 "[]" trace_Delete] h g d
  show ?thesis by simp
qed

text \<open>
  Claim C1. \<^verbatim>\<open>Delete\<close> is claimed to address the slot that \<^verbatim>\<open>Get\<close> addresses. The two
  methods agree on the shelf index, but \<^verbatim>\<open>Delete\<close> masks the slot with \<^verbatim>\<open>0x00FFFFFF\<close>
  (24 bits) where \<^verbatim>\<open>Get\<close> masks with \<^verbatim>\<open>0x0FFFFFFF\<close> (28 bits). On the key \<open>2 ^ 24\<close>, the
  key \<^verbatim>\<open>Put\<close> returns for slot \<open>2 ^ 24\<close> of shelf 0, \<^verbatim>\<open>Get\<close> asks shelf 0 for slot
  \<open>2 ^ 24\<close> and \<^verbatim>\<open>Delete\<close> asks it to delete slot 0.
\<close>

theorem C1_Delete_slot_mask:
  "Get trace_Get db1 0x1000000 [] = Return (Inr [], [ShelfGet 10 0x1000000]) \<and>
   Delete trace_Delete db1 0x1000000 [] = Return (None, [ShelfDelete 10 0])"
  by (simp add: Get_def Delete_def index_shelves_def shelfIndex_def Get_slot_def Delete_slot_def
      trace_Get_def trace_Delete_def db1_def)

text \<open>\<^verbatim>\<open>Delete\<close> drops bits 24 to 27 of the slot: the two agree only on slots below \<open>2 ^ 24\<close>.\<close>

lemma Delete_slot_Get_slot: "Delete_slot key = take_bit 24 (Get_slot key)"
  by (simp add: Delete_slot_eq Get_slot_eq)

lemma Delete_slot_same_iff: "Delete_slot key = Get_slot key \<longleftrightarrow> drop_bit 24 (Get_slot key) = 0"
  unfolding Delete_slot_Get_slot by (rule take_bit_eq_self_iff_drop_bit_eq_0)

subsection \<open>Round trip\<close>

lemma slot_low: "slot < 2 ^ 28 \<Longrightarrow> take_bit 28 slot = (slot :: 64 word)"
  by (simp add: take_bit_eq_mask less_mask_eq)

lemma slot_high: "slot < 2 ^ 28 \<Longrightarrow> drop_bit 28 (slot :: 64 word) = 0"
  using take_bit_eq_self_iff_drop_bit_eq_0 [of 28 slot] by (simp add: slot_low)

lemma index_word:
  assumes "index < 4096"
  shows "uint (take_bit 12 (drop_bit 28 (push_bit 28 (word_of_nat index :: 64 word)))) = int index"
proof -
  have a: "drop_bit 28 (push_bit 28 (word_of_nat index :: 64 word)) = take_bit 36 (word_of_nat index)"
    by (rule bit_eqI) (auto simp add: bit_simps)
  have b: "take_bit 12 (word_of_nat index :: 64 word) = word_of_nat index"
    using assms by (simp add: take_bit_of_nat take_bit_nat_eq_self)
  have "unat (word_of_nat index :: 64 word) = index"
    using assms by (intro of_nat_inverse) simp_all
  hence c: "uint (word_of_nat index :: 64 word) = int index"
    by (simp add: uint_nat)
  show ?thesis by (simp add: a b c)
qed

lemma makeKey_decode:
  assumes "index < 4096" and "slot < 2 ^ 28"
  shows "shelfIndex (makeKey slot index) = int index" and "Get_slot (makeKey slot index) = slot"
proof -
  show "shelfIndex (makeKey slot index) = int index"
    using assms by (simp add: shelfIndex_eq makeKey_def slot_high index_word)
  show "Get_slot (makeKey slot index) = slot"
    using assms(2) by (simp add: Get_slot_eq makeKey_def slot_low take_bit_push_bit)
qed

text \<open>
  Claim C5. For every shelf index below 4096 and every slot below \<open>2 ^ 28\<close>, the key
  \<^verbatim>\<open>slot | uint64(index)<<28\<close> that \<^verbatim>\<open>Put\<close> builds decodes, by the two expressions of \<^verbatim>\<open>Get\<close>,
  to the same index and slot, and encoding the decoded pair again gives the same key.
\<close>

theorem C5_key_roundtrip:
  assumes "index < 4096" and "slot < 2 ^ 28"
  shows "shelfIndex (makeKey slot index) = int index \<and>
         Get_slot (makeKey slot index) = slot \<and>
         makeKey (Get_slot (makeKey slot index)) (nat (shelfIndex (makeKey slot index)))
           = makeKey slot index"
proof -
  note d = makeKey_decode [OF assms]
  have "makeKey (Get_slot (makeKey slot index)) (nat (shelfIndex (makeKey slot index)))
          = makeKey slot (nat (int index))"
    by (simp only: d)
  thus ?thesis using d by simp
qed

theorem C5_key_roundtrip_witness:
  "(2 :: nat) < 4096 \<and> (5 :: 64 word) < 2 ^ 28 \<and> makeKey 5 2 = 0x20000005 \<and>
   shelfIndex 0x20000005 = 2 \<and> Get_slot 0x20000005 = 5 \<and>
   makeKey (Get_slot 0x20000005) (nat (shelfIndex 0x20000005)) = 0x20000005"
proof -
  have k: "makeKey 5 2 = 0x20000005" by (simp add: makeKey_def)
  have h1: "(2 :: nat) < 4096" by simp
  have h2: "(5 :: 64 word) < 2 ^ 28" by simp
  from C5_key_roundtrip [OF h1 h2] k h2 show ?thesis by simp
qed

subsection \<open>Shelf indices outside the database\<close>

lemma Get_in_range:
  assumes "shelfIndex key < int (length (shelves db))"
  shows "Get shelf_Get db key w
           = Return (shelf_Get (shelves db ! nat (shelfIndex key)) (Get_slot key) w)"
  using assms shelfIndex_range [of key] by (simp add: Get_def index_shelves_def)

lemma Delete_in_range:
  assumes "shelfIndex key < int (length (shelves db))"
  shows "Delete shelf_Delete db key w
           = Return (shelf_Delete (shelves db ! nat (shelfIndex key)) (Delete_slot key) w)"
  using assms shelfIndex_range [of key] by (simp add: Delete_def index_shelves_def)

text \<open>
  A database of one shelf and the key \<open>2 ^ 28\<close>, whose shelf index is 1: neither method
  returns; both panic in the slice access.
\<close>

theorem C6_claimed_error_counterexample:
  "int (length (shelves db1)) \<le> shelfIndex 0x10000000 \<and>
   Get trace_Get db1 0x10000000 [] = Panic (IndexOutOfRange 1 1) \<and>
   Delete trace_Delete db1 0x10000000 [] = Panic (IndexOutOfRange 1 1)"
  by (simp add: Get_def Delete_def index_shelves_def shelfIndex_def db1_def)

text \<open>
  Claim C6, amended. For every key whose decoded shelf index is at least the number of
  shelves, \<^verbatim>\<open>Get\<close> and \<^verbatim>\<open>Delete\<close> do not return an error: the access \<^verbatim>\<open>db.shelves[id]\<close>
  panics with Go's index-out-of-range runtime error, before any shelf is called.
\<close>

theorem C6_index_out_of_range_panics:
  assumes "int (length (shelves db)) \<le> shelfIndex key"
  shows "Get shelf_Get db key w = Panic (IndexOutOfRange (shelfIndex key) (length (shelves db))) \<and>
         Delete shelf_Delete db key w
           = Panic (IndexOutOfRange (shelfIndex key) (length (shelves db)))"
  using assms by (simp add: Get_def Delete_def index_shelves_def)

theorem C6_index_out_of_range_panics_witness:
  "int (length (shelves db3)) \<le> shelfIndex 0x70000001 \<and>
   Get trace_Get db3 0x70000001 [] = Panic (IndexOutOfRange 7 3) \<and>
   Delete trace_Delete db3 0x70000001 [] = Panic (IndexOutOfRange 7 3)"
proof -
  have i: "shelfIndex 0x70000001 = 7" by (simp add: shelfIndex_def)
  have n: "length (shelves db3) = 3" by (simp add: db3_def)
  have h: "int (length (shelves db3)) \<le> shelfIndex 0x70000001" by (simp add: i n)
  from C6_index_out_of_range_panics [OF h, of trace_Get "[]" trace_Delete] h i n
  show ?thesis by simp
qed

text \<open>Every key that \<^verbatim>\<open>Put\<close> returns is such an encoding, of the slot its shelf answered.\<close>

lemma Put_returns_makeKey:
  assumes "Put shelf_Put itemHeaderSize db data w = (Inr key, w')"
  shows "\<exists>slot index. index < length (shelves db) \<and>
           shelf_Put (shelves db ! index) data w = (Inr slot, w') \<and> key = makeKey slot index"
proof -
  let ?index = "Search (length (shelves db))
                  (\<lambda>i. length data + itemHeaderSize \<le> unat (slotSize (shelves db ! i)))"
  from assms have ne: "?index \<noteq> length (shelves db)"
    by (auto simp add: Put_def Let_def split: if_splits)
  with Search_le [of "length (shelves db)"] have lt: "?index < length (shelves db)"
    by (simp add: le_neq_implies_less)
  from assms ne obtain slot where
    "shelf_Put (shelves db ! ?index) data w = (Inr slot, w')" "key = makeKey slot ?index"
    by (auto simp add: Put_def Let_def split: if_splits prod.splits sum.splits)
  with lt show ?thesis by blast
qed

text \<open>
  So the keys of \<^verbatim>\<open>Put\<close> survive decoding and encoding, on a database of at most 4096
  shelves whose shelves answer slots below \<open>2 ^ 28\<close>.
\<close>

lemma Put_key_roundtrip:
  assumes "Put shelf_Put itemHeaderSize db data w = (Inr key, w')"
    and "length (shelves db) \<le> 4096"
    and "\<And>s d v slot v'. shelf_Put s d v = (Inr slot, v') \<Longrightarrow> slot < 2 ^ 28"
  shows "makeKey (Get_slot key) (nat (shelfIndex key)) = key"
proof -
  from Put_returns_makeKey [OF assms(1)] obtain slot index where
    i: "index < length (shelves db)" and
    p: "shelf_Put (shelves db ! index) data w = (Inr slot, w')" and
    k: "key = makeKey slot index"
    by blast
  from i assms(2) have "index < 4096" by simp
  moreover from p have "slot < 2 ^ 28" by (rule assms(3))
  ultimately show ?thesis unfolding k by (simp add: makeKey_decode)
qed

end
